theory Spec2Isabelle
  imports Main
begin

section \<open>JavaScript values\<close>

text \<open>
  The engine treats job arguments, outputs and contexts as values of type \<open>any\<close>.
  What it does with them is: test truthiness (\<open>if (stepOutput)\<close>), compare with
  \<open>undefined\<close>, and read properties (\<open>stepOutput[arg[2]]\<close>). The values modelled
  are the primitives, plain objects given by their own data properties, and the objects
  and functions that the runtime provides (\<open>Object.prototype\<close>, its methods, ...),
  which are known by name only. Numbers are integers (no NaN, no fractions) and strings
  hold ASCII characters.
\<close>

datatype jsval =
    JUndefined
  | JNull
  | JBool bool
  | JNum int
  | JStr string
  | JObj "(string \<times> jsval) list"
  | JBuiltin string

fun truthy :: "jsval \<Rightarrow> bool" where
  "truthy JUndefined = False"
| "truthy JNull = False"
| "truthy (JBool b) = b"
| "truthy (JNum n) = (n \<noteq> 0)"
| "truthy (JStr s) = (s \<noteq> [])"
| "truthy (JObj kvs) = True"
| "truthy (JBuiltin n) = True"

text \<open>Whether a value is an object (functions included), as the \<open>__proto__\<close> setter asks.\<close>

fun isObject :: "jsval \<Rightarrow> bool" where
  "isObject (JObj kvs) = True"
| "isObject (JBuiltin n) = True"
| "isObject v = False"

text \<open>
  What a property read finds beyond own data properties depends on the state of the
  runtime: the prototypes and what they hold. That state is an input of the model.
  \<open>rt_lookup v k\<close> is what \<open>v[k]\<close> gives for a value \<open>v\<close> when \<open>k\<close> is not one of
  the own properties the model holds for \<open>v\<close>. \<open>rt_inherit p k\<close> is what a read of
  \<open>k\<close> gives on an object built by the engine or passed by the caller that has no own
  property \<open>k\<close>, where \<open>p\<close> is \<open>None\<close> for an object that still has
  \<open>Object.prototype\<close> as its prototype and \<open>Some v\<close> after its prototype was set to
  \<open>v\<close>. Reads are taken to have no effect and not to throw.
\<close>

record realm =
  rt_lookup :: "jsval \<Rightarrow> string \<Rightarrow> jsval"
  rt_inherit :: "jsval option \<Rightarrow> string \<Rightarrow> jsval"

text \<open>The decimal name of an array index, and the character of a string at such a name.\<close>

fun decimal :: "nat \<Rightarrow> string" where
  "decimal n =
     (if n < 10 then [''0123456789'' ! n]
      else decimal (n div 10) @ [''0123456789'' ! (n mod 10)])"

declare decimal.simps [simp del]

definition stringIndex :: "string \<Rightarrow> string \<Rightarrow> char option" where
  "stringIndex s k = map_of (zip (map decimal [0..<length s]) s) k"

text \<open>
  \<open>v[k]\<close> for a truthy \<open>v\<close>: an own property of a plain object, the length or a
  character of a string, and otherwise what the runtime finds. (On \<open>undefined\<close> and
  \<open>null\<close> the read throws; the engine reads truthy values only.)
\<close>

fun getProp :: "realm \<Rightarrow> jsval \<Rightarrow> string \<Rightarrow> jsval" where
  "getProp realm (JObj kvs) k =
     (case map_of kvs k of Some v \<Rightarrow> v | None \<Rightarrow> rt_lookup realm (JObj kvs) k)"
| "getProp realm (JStr s) k =
     (if k = ''length'' then JNum (int (length s))
      else case stringIndex s k of
             Some c \<Rightarrow> JStr [c]
           | None \<Rightarrow> rt_lookup realm (JStr s) k)"
| "getProp realm v k = rt_lookup realm v k"

text \<open>
  \<open>Record<string, any>\<close> and \<open>JobContext\<close>: an object given by its own data
  properties and by the prototype it was given, if its prototype was replaced
  (\<open>rec_proto\<close> is \<open>None\<close> for an object created by \<open>{}\<close> and not changed since).
  A key may be present with the value \<open>undefined\<close>.
\<close>

record jsrecord =
  rec_own :: "string \<rightharpoonup> jsval"
  rec_proto :: "jsval option"

definition emptyRecord :: jsrecord where
  "emptyRecord = \<lparr>rec_own = Map.empty, rec_proto = None\<rparr>"

text \<open>\<open>r[k]\<close>: the own property, else what is inherited.\<close>

definition recordGet :: "realm \<Rightarrow> jsrecord \<Rightarrow> string \<Rightarrow> jsval" where
  "recordGet realm r k =
     (case rec_own r k of Some v \<Rightarrow> v | None \<Rightarrow> rt_inherit realm (rec_proto r) k)"

text \<open>
  Whether an assignment to \<open>__proto__\<close> on an object with the given prototype reaches
  the accessor of \<open>Object.prototype\<close>: not when the prototype is \<open>null\<close>, and not
  when the prototype has a data property of that name.
\<close>

fun reachesAccessor :: "jsval option \<Rightarrow> bool" where
  "reachesAccessor None = True"
| "reachesAccessor (Some JNull) = False"
| "reachesAccessor (Some (JObj kvs)) = (map_of kvs ''__proto__'' = None)"
| "reachesAccessor (Some v) = True"

text \<open>
  \<open>r[k] = v\<close>. It creates or overwrites the own property \<open>k\<close>, except for the key
  \<open>__proto__\<close> on an object without an own property of that name, where the assignment
  reaches the accessor: the accessor replaces the prototype when \<open>v\<close> is an object or
  \<open>null\<close> and does nothing otherwise. Prototypes are taken to hold no other accessor
  and no read-only property.
\<close>

definition recordSet :: "jsrecord \<Rightarrow> string \<Rightarrow> jsval \<Rightarrow> jsrecord" where
  "recordSet r k v =
     (if k = ''__proto__'' \<and> rec_own r k = None \<and> reachesAccessor (rec_proto r)
      then (if isObject v \<or> v = JNull then r\<lparr>rec_proto := Some v\<rparr> else r)
      else r\<lparr>rec_own := (rec_own r)(k \<mapsto> v)\<rparr>)"

text \<open>
  A JavaScript array: a list whose slots may be empty (\<open>None\<close> is a hole, read as
  \<open>undefined\<close>). Reading outside the array gives \<open>undefined\<close>; writing beyond the end
  extends the array and leaves holes.
\<close>

type_synonym 'a jsarray = "'a option list"

definition arrayGet :: "'a jsarray \<Rightarrow> int \<Rightarrow> 'a option" where
  "arrayGet xs i = (if 0 \<le> i \<and> i < int (length xs) then xs ! nat i else None)"

definition arraySet :: "'a jsarray \<Rightarrow> nat \<Rightarrow> 'a \<Rightarrow> 'a jsarray" where
  "arraySet xs i v =
     (if i < length xs then xs[i := Some v]
      else xs @ replicate (i - length xs) None @ [Some v])"

section \<open>Data model\<close>

datatype status = Pending | Exception | Done

record jobJournal =
  jj_name :: string
  jj_input :: jsrecord
  jj_output :: jsval
  jj_status :: "status option"

record jobLineJournal =
  jl_name :: string
  jl_input :: jsrecord
  jl_status :: "status option"
  jl_steps :: "jobJournal jsarray"

text \<open>
  What one call of a job's executor does: it may mutate the context it was given, it may
  call \<open>done()\<close>, and it either returns a value (directly or by a resolved promise) or
  throws (or rejects) with a value. The executor is taken to act on nothing else of the
  engine: it registers no jobs and does not change a journal. An executor whose promise
  never settles is not modelled.
\<close>

datatype completion = Returned jsval | Threw jsval

record execOutcome =
  ctxAfter :: jsrecord
  completion :: completion
  doneCalled :: bool

record job =
  job_name :: string
  job_label :: "string option"
  job_desc :: "string option"
  job_args :: "string list option"
  executor :: "jsrecord \<Rightarrow> jsrecord \<Rightarrow> execOutcome"

text \<open>
  The entries of \<open>JobLineStep.args\<close>: \<open>[key, value]\<close>, \<open>[key, 'external', k]\<close>,
  \<open>[key, PREVIOUS_STEP, k]\<close>, \<open>[key, n, k]\<close> with a number \<open>n\<close>, and
  \<open>[key, s, k]\<close> with any other symbol \<open>s\<close>.
\<close>

datatype argSpec =
    Literal string jsval
  | External string string
  | PreviousStep string string
  | StepAt string int string
  | OtherSymbol string string

fun argKey :: "argSpec \<Rightarrow> string" where
  "argKey (Literal k v) = k"
| "argKey (External k s) = k"
| "argKey (PreviousStep k s) = k"
| "argKey (StepAt k n s) = k"
| "argKey (OtherSymbol k s) = k"

record jobLineStep =
  step_name :: string
  step_inheritable :: "bool option"
  step_args :: "argSpec list option"

record jobLine =
  line_name :: string
  line_args :: "string list option"
  line_steps :: "jobLineStep list"

record jobExecuteResult =
  res_output :: jsval
  res_ctx :: jsrecord
  res_journal :: jobJournal
  res_done :: bool

text \<open>The two module-level maps \<open>jobs\<close> and \<open>jobLines\<close>.\<close>

record registry =
  jobs :: "string \<rightharpoonup> job"
  jobLines :: "string \<rightharpoonup> jobLine"

datatype error =
    JobExists string
  | JobLineExists string
  | JobNotFound string
  | TypeError

section \<open>Registration\<close>

text \<open>
  \<open>registerJob\<close> and \<open>registerJobLine\<close> return the error thrown (if any) and the
  registry after the call.
\<close>

definition registerJob :: "job option \<Rightarrow> registry \<Rightarrow> error option \<times> registry" where
  "registerJob j reg =
     (case j of
        None \<Rightarrow> (None, reg)
      | Some jb \<Rightarrow>
          (case jobs reg (job_name jb) of
             Some old \<Rightarrow> (Some (JobExists (job_name jb)), reg)
           | None \<Rightarrow> (None, reg\<lparr>jobs := (jobs reg)(job_name jb \<mapsto> jb)\<rparr>)))"

definition registerJobLine :: "jobLine option \<Rightarrow> registry \<Rightarrow> error option \<times> registry" where
  "registerJobLine l reg =
     (case l of
        None \<Rightarrow> (None, reg)
      | Some ln \<Rightarrow>
          (case jobLines reg (line_name ln) of
             Some old \<Rightarrow> (Some (JobLineExists (line_name ln)), reg)
           | None \<Rightarrow> (None, reg\<lparr>jobLines := (jobLines reg)(line_name ln \<mapsto> ln)\<rparr>)))"

section \<open>Running one job\<close>

definition freshJournal :: "job \<Rightarrow> jsrecord \<Rightarrow> jobJournal" where
  "freshJournal jb args =
     \<lparr>jj_name = job_name jb, jj_input = args, jj_output = JNull, jj_status = Some Pending\<rparr>"

text \<open>The context handed to the executor: the one supplied, or a new empty object.\<close>

definition jobContext :: "jsrecord option \<Rightarrow> jsrecord" where
  "jobContext ctx = (case ctx of Some c \<Rightarrow> c | None \<Rightarrow> emptyRecord)"

definition executeOneJob ::
  "job \<Rightarrow> jsrecord option \<Rightarrow> jsrecord \<Rightarrow> jobJournal option \<Rightarrow> jobExecuteResult" where
  "executeOneJob jb ctx args journal =
     (let jobJournal = (case journal of Some j \<Rightarrow> j | None \<Rightarrow> freshJournal jb args);
          r = executor jb (jobContext ctx) args
      in case completion r of
           Returned jobOutput \<Rightarrow>
             \<lparr>res_output = jobOutput, res_ctx = ctxAfter r,
              res_journal = jobJournal\<lparr>jj_output := jobOutput, jj_status := Some Done\<rparr>,
              res_done = doneCalled r\<rparr>
         | Threw err \<Rightarrow>
             \<lparr>res_output = JUndefined, res_ctx = ctxAfter r,
              res_journal = jobJournal\<lparr>jj_status := Some Exception\<rparr>,
              res_done = doneCalled r\<rparr>)"

section \<open>Argument resolution\<close>

record buildOptions =
  opt_external :: "jsrecord option"
  opt_previous :: jsval
  opt_steps :: "jobJournal jsarray"
  opt_index :: nat

text \<open>The output of the journal entry a numeric reference points at, if there is one.\<close>

definition stepOutput :: "buildOptions \<Rightarrow> int \<Rightarrow> jsval" where
  "stepOutput options n =
     (case arrayGet (opt_steps options) (if n < 0 then int (opt_index options) + n else n) of
        Some j \<Rightarrow> jj_output j
      | None \<Rightarrow> JUndefined)"

text \<open>
  The body of \<open>args.forEach\<close>: the state is the result map \<open>res\<close> and the list
  \<open>assignedArgs\<close>.
\<close>

fun resolveArg ::
  "realm \<Rightarrow> string list \<Rightarrow> buildOptions \<Rightarrow> jsrecord \<times> string list \<Rightarrow> argSpec \<Rightarrow>
   jsrecord \<times> string list"
where
  "resolveArg realm jobArgs options (res, assignedArgs) arg =
     (if argKey arg \<notin> set jobArgs then (res, assignedArgs)
      else case arg of
        Literal k v \<Rightarrow> (recordSet res k v, assignedArgs @ [k])
      | External k s \<Rightarrow>
          (case opt_external options of
             Some ext \<Rightarrow> (recordSet res k (recordGet realm ext s), assignedArgs @ [k])
           | None \<Rightarrow> (res, assignedArgs))
      | PreviousStep k s \<Rightarrow>
          (if truthy (opt_previous options)
           then (recordSet res k (getProp realm (opt_previous options) s), assignedArgs @ [k])
           else (res, assignedArgs))
      | StepAt k n s \<Rightarrow>
          (if truthy (stepOutput options n)
           then (recordSet res k (getProp realm (stepOutput options n) s), assignedArgs @ [k])
           else (res, assignedArgs))
      | OtherSymbol k s \<Rightarrow> (res, assignedArgs))"

declare resolveArg.simps [simp del]

text \<open>The body of \<open>jobArgs.forEach\<close>: the same-name fallback.\<close>

definition fallbackArg ::
  "realm \<Rightarrow> jsrecord \<Rightarrow> string list \<Rightarrow> jsrecord \<Rightarrow> string \<Rightarrow> jsrecord" where
  "fallbackArg realm ext assignedArgs res jobArg =
     (if jobArg \<notin> set assignedArgs then recordSet res jobArg (recordGet realm ext jobArg) else res)"

text \<open>The state after \<open>args.forEach\<close>: the explicit resolution.\<close>

definition explicitArgs ::
  "realm \<Rightarrow> string list \<Rightarrow> buildOptions \<Rightarrow> argSpec list \<Rightarrow> jsrecord \<times> string list" where
  "explicitArgs realm jobArgs options args =
     foldl (resolveArg realm jobArgs options) (emptyRecord, []) args"

definition buildJobArgs ::
  "realm \<Rightarrow> argSpec list option \<Rightarrow> string list option \<Rightarrow> buildOptions \<Rightarrow> jsrecord" where
  "buildJobArgs realm args jobArgs options =
     (case (args, jobArgs) of
        (Some as, Some jas) \<Rightarrow>
          (let (res, assignedArgs) = explicitArgs realm jas options as
           in case opt_external options of
                Some ext \<Rightarrow>
                  (if length assignedArgs < length jas
                   then foldl (fallbackArg realm ext assignedArgs) res jas
                   else res)
              | None \<Rightarrow> res)
      | _ \<Rightarrow> emptyRecord)"

section \<open>Running a line\<close>

record options =
  opt_args :: "jsrecord option"
  opt_previousJobLineJournal :: "jobLineJournal option"

datatype lineRef = ByName string | Direct jobLine

text \<open>
  How a call of \<open>executeJobLine\<close> ends: the process exits, an error propagates, or the
  journal is returned.
\<close>

datatype outcome = Exits | Throws error | Returns jobLineJournal

text \<open>
  One record per call of an executor, in call order: the index of the step, the job, the
  context and the arguments its executor received, and what \<open>executeOneJob\<close>
  returned. The list of these records is not part of the program's state; it is what
  makes "the executor is (not) invoked" a statement about a run.
\<close>

record call =
  call_index :: nat
  call_job :: job
  call_ctx :: jsrecord
  call_args :: jsrecord
  call_result :: jobExecuteResult

text \<open>\<open>options?.args![argKey]\<close>: \<open>undefined\<close> without options, a TypeError when
  the options have no \<open>args\<close>.\<close>

definition externalValue :: "realm \<Rightarrow> options option \<Rightarrow> string \<Rightarrow> error + jsval" where
  "externalValue realm opts k =
     (case opts of
        None \<Rightarrow> Inr JUndefined
      | Some opt \<Rightarrow> (case opt_args opt of None \<Rightarrow> Inl TypeError | Some a \<Rightarrow> Inr (recordGet realm a k)))"

fun collectExternalArgs ::
  "realm \<Rightarrow> string list \<Rightarrow> options option \<Rightarrow> jsrecord \<times> string list \<Rightarrow>
   error + jsrecord \<times> string list"
where
  "collectExternalArgs realm [] opts (externalArgs, lackedArgs) = Inr (externalArgs, lackedArgs)"
| "collectExternalArgs realm (k # ks) opts (externalArgs, lackedArgs) =
     (case externalValue realm opts k of
        Inl e \<Rightarrow> Inl e
      | Inr v \<Rightarrow>
          (if v = JUndefined
           then collectExternalArgs realm ks opts (externalArgs, lackedArgs @ [k])
           else collectExternalArgs realm ks opts (recordSet externalArgs k v, lackedArgs)))"

text \<open>Whether the executor threw in a recorded call.\<close>

definition threw :: "call \<Rightarrow> bool" where
  "threw c =
     (case completion (executor (call_job c) (call_ctx c) (call_args c)) of
        Threw e \<Rightarrow> True
      | Returned v \<Rightarrow> False)"

definition resolveJobLine :: "registry \<Rightarrow> lineRef \<Rightarrow> jobLine option" where
  "resolveJobLine reg r = (case r of ByName n \<Rightarrow> jobLines reg n | Direct l \<Rightarrow> Some l)"

text \<open>
  \<open>(jobLineJournal.steps[jobLineJournal.steps.length - 1] || {}).output\<close>
\<close>

definition previousOutput :: "jobJournal jsarray \<Rightarrow> jsval" where
  "previousOutput steps =
     (case arrayGet steps (int (length steps) - 1) of
        Some j \<Rightarrow> jj_output j
      | None \<Rightarrow> JUndefined)"

text \<open>One pass through the body of the \<open>for\<close> loop.\<close>

datatype stepResult =
    Break "jobLineJournal \<times> call list"
  | Raise error "call list"
  | Continue "jobLineJournal \<times> call list"

definition previousDone :: "jobJournal option \<Rightarrow> bool" where
  "previousDone previousJournal =
     (case previousJournal of Some pj \<Rightarrow> jj_status pj = Some Done | None \<Rightarrow> False)"

text \<open>The arguments of the step at \<open>index\<close>, given the journal of the run so far.\<close>

definition stepArgs ::
  "realm \<Rightarrow> jobLineStep \<Rightarrow> job \<Rightarrow> jsrecord \<Rightarrow> jobLineJournal \<Rightarrow> nat \<Rightarrow> jsrecord" where
  "stepArgs realm step jb externalArgs jobLineJournal index =
     buildJobArgs realm (step_args step) (job_args jb)
       \<lparr>opt_external = Some externalArgs,
        opt_previous = previousOutput (jl_steps jobLineJournal),
        opt_steps = jl_steps jobLineJournal,
        opt_index = index\<rparr>"

text \<open>\<open>step.inheritable !== false ? previousContext : null\<close>\<close>

definition stepContext :: "jobLineStep \<Rightarrow> jsrecord option \<Rightarrow> jsrecord option" where
  "stepContext step previousContext =
     (if step_inheritable step \<noteq> Some False then previousContext else None)"

definition executeStep ::
  "realm \<Rightarrow> registry \<Rightarrow> jsrecord \<Rightarrow> jobLineJournal \<Rightarrow> jsrecord option \<Rightarrow> jobLineStep \<Rightarrow> nat \<Rightarrow>
   jobLineJournal \<times> call list \<Rightarrow> stepResult" where
  "executeStep realm reg externalArgs previousJobLineJournal previousContext step index st =
     (let jobLineJournal = fst st; trace = snd st;
          previousJournal = arrayGet (jl_steps previousJobLineJournal) (int index)
      in if previousDone previousJournal then Break (jobLineJournal, trace)
         else case jobs reg (step_name step) of
           None \<Rightarrow> Raise (JobNotFound (step_name step)) trace
         | Some jb \<Rightarrow>
             (let args = stepArgs realm step jb externalArgs jobLineJournal index;
                  ctx = stepContext step previousContext;
                  res = executeOneJob jb ctx args previousJournal;
                  trace' = trace @ [\<lparr>call_index = index, call_job = jb,
                                     call_ctx = jobContext ctx, call_args = args,
                                     call_result = res\<rparr>];
                  jobLineJournal' =
                    jobLineJournal\<lparr>jl_steps := arraySet (jl_steps jobLineJournal) index (res_journal res)\<rparr>
              in if jj_status (res_journal res) \<noteq> Some Done
                 then Break (jobLineJournal'\<lparr>jl_status := jj_status (res_journal res)\<rparr>, trace')
                 else if res_done res then Break (jobLineJournal', trace')
                 else Continue (jobLineJournal', trace')))"

text \<open>
  The \<open>for\<close> loop. \<open>previousContext\<close> is the local variable of that name: the loop
  never assigns it, so every iteration sees the value it was initialised with.
\<close>

function executeLoop ::
  "realm \<Rightarrow> registry \<Rightarrow> jsrecord \<Rightarrow> jobLineJournal \<Rightarrow> jsrecord option \<Rightarrow> jobLineStep list \<Rightarrow>
   nat \<Rightarrow> jobLineJournal \<times> call list \<Rightarrow> (error + jobLineJournal) \<times> call list" where
  "executeLoop realm reg externalArgs previousJobLineJournal previousContext steps index st =
     (if index < length steps then
        (case executeStep realm reg externalArgs previousJobLineJournal previousContext
                (steps ! index) index st of
           Break (j, t) \<Rightarrow> (Inr j, t)
         | Raise e t \<Rightarrow> (Inl e, t)
         | Continue st' \<Rightarrow>
             executeLoop realm reg externalArgs previousJobLineJournal previousContext steps
               (Suc index) st')
      else (Inr (fst st), snd st))"
  by pat_completeness auto
termination
  by (relation "measure (\<lambda>(realm, reg, ext, prev, ctx, steps, index, st). length steps - index)") auto

declare executeLoop.simps [simp del]

definition finishLine :: "jobLineJournal \<Rightarrow> jobLineJournal" where
  "finishLine j = (if jl_status j = Some Pending then j\<lparr>jl_status := Some Done\<rparr> else j)"

definition startJournal :: "jobLine \<Rightarrow> jsrecord \<Rightarrow> jobLineJournal" where
  "startJournal jobLine externalArgs =
     \<lparr>jl_name = line_name jobLine, jl_input = externalArgs, jl_status = Some Pending, jl_steps = []\<rparr>"

text \<open>
  \<open>options?.previousJobLineJournal || { name, input, steps: [] }\<close>; only its
  \<open>steps\<close> are read.
\<close>

definition resumptionJournal :: "jobLine \<Rightarrow> jsrecord \<Rightarrow> options option \<Rightarrow> jobLineJournal" where
  "resumptionJournal jobLine externalArgs opts =
     (case opts of
        Some opt \<Rightarrow>
          (case opt_previousJobLineJournal opt of
             Some p \<Rightarrow> p
           | None \<Rightarrow> \<lparr>jl_name = line_name jobLine, jl_input = externalArgs,
                       jl_status = None, jl_steps = []\<rparr>)
      | None \<Rightarrow> \<lparr>jl_name = line_name jobLine, jl_input = externalArgs,
                  jl_status = None, jl_steps = []\<rparr>)"

definition validateArgs ::
  "realm \<Rightarrow> jobLine \<Rightarrow> options option \<Rightarrow> error + jsrecord \<times> string list" where
  "validateArgs realm jobLine opts =
     (case line_args jobLine of
        None \<Rightarrow> Inr (emptyRecord, [])
      | Some ks \<Rightarrow> collectExternalArgs realm ks opts (emptyRecord, []))"

definition executeJobLine ::
  "realm \<Rightarrow> registry \<Rightarrow> lineRef \<Rightarrow> options option \<Rightarrow> outcome \<times> call list" where
  "executeJobLine realm reg jobLineName opts =
     (case resolveJobLine reg jobLineName of
        None \<Rightarrow> (Exits, [])
      | Some jobLine \<Rightarrow>
          (case validateArgs realm jobLine opts of
             Inl e \<Rightarrow> (Throws e, [])
           | Inr (externalArgs, lackedArgs) \<Rightarrow>
               (if lackedArgs \<noteq> [] then (Exits, [])
                else case executeLoop realm reg externalArgs
                            (resumptionJournal jobLine externalArgs opts) None
                            (line_steps jobLine) 0 (startJournal jobLine externalArgs, []) of
                       (Inl e, t) \<Rightarrow> (Throws e, t)
                     | (Inr j, t) \<Rightarrow> (Returns (finishLine j), t))))"

text \<open>The journal entry that a recorded call leaves in \<open>jobLineJournal.steps\<close>.\<close>

definition journalOf :: "call \<Rightarrow> jobJournal option" where
  "journalOf c = Some (res_journal (call_result c))"

section \<open>Example jobs and lines\<close>

text \<open>
  A runtime in its initial state. The prototypes hold their standard members, each known
  by name (the members of ECMAScript 5.1 and the legacy accessors' helpers; later editions
  add members). Built-in functions are listed with their \<open>prototype\<close> property only.
\<close>

definition members :: "string \<Rightarrow> string list \<Rightarrow> (string \<times> jsval) list" where
  "members owner names = map (\<lambda>k. (k, JBuiltin (owner @ ''.prototype.'' @ k))) names"

definition objectPrototype :: "(string \<times> jsval) list" where
  "objectPrototype =
     (''constructor'', JBuiltin ''Object'') #
     members ''Object''
       [''toString'', ''toLocaleString'', ''valueOf'', ''hasOwnProperty'', ''isPrototypeOf'',
        ''propertyIsEnumerable'', ''__defineGetter__'', ''__defineSetter__'',
        ''__lookupGetter__'', ''__lookupSetter__'']"

definition builtinOwn :: "string \<Rightarrow> (string \<times> jsval) list" where
  "builtinOwn n =
     (if n = ''Object.prototype'' then objectPrototype
      else if n = ''Function.prototype'' then
        (''constructor'', JBuiltin ''Function'') #
        members ''Function'' [''toString'', ''apply'', ''call'', ''bind'']
      else if n = ''String.prototype'' then
        (''constructor'', JBuiltin ''String'') #
        members ''String''
          [''toString'', ''valueOf'', ''charAt'', ''charCodeAt'', ''concat'', ''indexOf'',
           ''lastIndexOf'', ''localeCompare'', ''match'', ''replace'', ''search'', ''slice'',
           ''split'', ''substring'', ''substr'', ''toLowerCase'', ''toLocaleLowerCase'',
           ''toUpperCase'', ''toLocaleUpperCase'', ''trim'']
      else if n = ''Number.prototype'' then
        (''constructor'', JBuiltin ''Number'') #
        members ''Number''
          [''toString'', ''toLocaleString'', ''valueOf'', ''toFixed'', ''toExponential'',
           ''toPrecision'']
      else if n = ''Boolean.prototype'' then
        (''constructor'', JBuiltin ''Boolean'') # members ''Boolean'' [''toString'', ''valueOf'']
      else if n \<in> set [''Object'', ''Function'', ''String'', ''Number'', ''Boolean''] then
        [(''prototype'', JBuiltin (n @ ''.prototype''))]
      else [])"

text \<open>The name of the prototype of a value.\<close>

fun prototypeName :: "jsval \<Rightarrow> string option" where
  "prototypeName (JObj kvs) = Some ''Object.prototype''"
| "prototypeName (JStr s) = Some ''String.prototype''"
| "prototypeName (JNum n) = Some ''Number.prototype''"
| "prototypeName (JBool b) = Some ''Boolean.prototype''"
| "prototypeName (JBuiltin n) =
     (if n = ''Object.prototype'' then None
      else if n \<in> set [''Function.prototype'', ''String.prototype'', ''Number.prototype'',
                        ''Boolean.prototype''] then Some ''Object.prototype''
      else Some ''Function.prototype'')"
| "prototypeName v = None"

text \<open>A key looked up from the prototype named \<open>n\<close> upwards.\<close>

definition protoLookup :: "string \<Rightarrow> string \<Rightarrow> jsval" where
  "protoLookup n k =
     (case map_of (builtinOwn n) k of
        Some v \<Rightarrow> v
      | None \<Rightarrow>
          (if n = ''Object.prototype'' then JUndefined
           else case map_of objectPrototype k of Some v \<Rightarrow> v | None \<Rightarrow> JUndefined))"

definition exampleLookup :: "jsval \<Rightarrow> string \<Rightarrow> jsval" where
  "exampleLookup v k =
     (if k = ''__proto__'' then
        (case prototypeName v of
           Some n \<Rightarrow> JBuiltin n
         | None \<Rightarrow> (if v = JBuiltin ''Object.prototype'' then JNull else JUndefined))
      else case (case v of JBuiltin n \<Rightarrow> map_of (builtinOwn n) k | _ \<Rightarrow> None) of
        Some x \<Rightarrow> x
      | None \<Rightarrow> (case prototypeName v of Some n \<Rightarrow> protoLookup n k | None \<Rightarrow> JUndefined))"

definition exampleInherit :: "jsval option \<Rightarrow> string \<Rightarrow> jsval" where
  "exampleInherit p k =
     (case p of
        None \<Rightarrow>
          (if k = ''__proto__'' then JBuiltin ''Object.prototype''
           else protoLookup ''Object.prototype'' k)
      | Some v \<Rightarrow>
          (if v = JNull then JUndefined
           else case (case v of JObj kvs \<Rightarrow> map_of kvs k | _ \<Rightarrow> None) of
             Some x \<Rightarrow> x
           | None \<Rightarrow> (if k = ''__proto__'' then v else exampleLookup v k)))"

definition exampleRealm :: realm where
  "exampleRealm = \<lparr>rt_lookup = exampleLookup, rt_inherit = exampleInherit\<rparr>"

text \<open>Concrete jobs, lines and a registry on which the results below are instantiated.\<close>

definition exampleJob :: "string \<Rightarrow> string list \<Rightarrow> (jsrecord \<Rightarrow> jsrecord \<Rightarrow> execOutcome) \<Rightarrow> job" where
  "exampleJob n as ex =
     \<lparr>job_name = n, job_label = None, job_desc = None, job_args = Some as, executor = ex\<rparr>"

definition setX :: "jsrecord \<Rightarrow> jsrecord \<Rightarrow> execOutcome" where
  "setX ctx args =
     \<lparr>ctxAfter = recordSet ctx ''x'' (JNum 1), completion = Returned (JObj [(''out'', JNum 5)]),
      doneCalled = False\<rparr>"

definition readX :: "jsrecord \<Rightarrow> jsrecord \<Rightarrow> execOutcome" where
  "readX ctx args =
     \<lparr>ctxAfter = ctx, completion = Returned (recordGet exampleRealm ctx ''x''), doneCalled = False\<rparr>"

definition failing :: "jsrecord \<Rightarrow> jsrecord \<Rightarrow> execOutcome" where
  "failing ctx args =
     \<lparr>ctxAfter = ctx, completion = Threw (JStr ''boom''), doneCalled = False\<rparr>"

definition stopping :: "jsrecord \<Rightarrow> jsrecord \<Rightarrow> execOutcome" where
  "stopping ctx args =
     \<lparr>ctxAfter = ctx, completion = Returned JNull, doneCalled = True\<rparr>"

definition emptyRegistry :: registry where
  "emptyRegistry = \<lparr>jobs = Map.empty, jobLines = Map.empty\<rparr>"

definition exampleStep :: "string \<Rightarrow> argSpec list \<Rightarrow> jobLineStep" where
  "exampleStep n as = \<lparr>step_name = n, step_inheritable = None, step_args = Some as\<rparr>"

definition exampleLine :: "jobLineStep list \<Rightarrow> jobLine" where
  "exampleLine ss = \<lparr>line_name = ''line'', line_args = None, line_steps = ss\<rparr>"

definition exampleRegistry :: registry where
  "exampleRegistry =
     \<lparr>jobs = [''set'' \<mapsto> exampleJob ''set'' [] setX,
              ''read'' \<mapsto> exampleJob ''read'' [] readX,
              ''fail'' \<mapsto> exampleJob ''fail'' [] failing,
              ''stop'' \<mapsto> exampleJob ''stop'' [] stopping],
      jobLines = Map.empty\<rparr>"

text \<open>A journal of an earlier run: its first step failed, its second step is done.\<close>

definition examplePrior :: jobLineJournal where
  "examplePrior =
     \<lparr>jl_name = ''line'', jl_input = emptyRecord, jl_status = Some Exception,
      jl_steps = [Some \<lparr>jj_name = ''set'', jj_input = emptyRecord, jj_output = JNull,
                         jj_status = Some Exception\<rparr>,
                  Some \<lparr>jj_name = ''read'', jj_input = emptyRecord, jj_output = JNum 3,
                         jj_status = Some Done\<rparr>]\<rparr>"

definition resumeOptions :: "options option" where
  "resumeOptions = Some \<lparr>opt_args = None, opt_previousJobLineJournal = Some examplePrior\<rparr>"




section \<open>Evaluation and case rules\<close>

lemmas example_defs =
  exampleRegistry_def exampleJob_def exampleStep_def exampleLine_def
  setX_def readX_def failing_def stopping_def
  exampleRealm_def exampleInherit_def exampleLookup_def protoLookup_def builtinOwn_def
  objectPrototype_def members_def

lemmas run_defs =
  executeJobLine_def resolveJobLine_def validateArgs_def resumptionJournal_def startJournal_def
  finishLine_def executeLoop.simps executeStep_def previousDone_def arrayGet_def arraySet_def
  stepArgs_def stepContext_def buildJobArgs_def explicitArgs_def resolveArg.simps fallbackArg_def
  previousOutput_def
  executeOneJob_def jobContext_def freshJournal_def recordGet_def recordSet_def emptyRecord_def
  stepOutput_def Let_def

lemmas args_defs =
  buildJobArgs_def explicitArgs_def resolveArg.simps fallbackArg_def recordGet_def recordSet_def
  emptyRecord_def

lemma executeLoop_rule:
  assumes init: "I index st"
    and cont: "\<And>i s s'. I i s \<Longrightarrow> i < length steps \<Longrightarrow>
        executeStep realm reg ext prior ctx (steps ! i) i s = Continue s' \<Longrightarrow> I (Suc i) s'"
    and brk: "\<And>i s j t. I i s \<Longrightarrow> i < length steps \<Longrightarrow>
        executeStep realm reg ext prior ctx (steps ! i) i s = Break (j, t) \<Longrightarrow> Q (Inr j, t)"
    and rais: "\<And>i s e t. I i s \<Longrightarrow> i < length steps \<Longrightarrow>
        executeStep realm reg ext prior ctx (steps ! i) i s = Raise e t \<Longrightarrow> Q (Inl e, t)"
    and fin: "\<And>i s. I i s \<Longrightarrow> \<not> i < length steps \<Longrightarrow> Q (Inr (fst s), snd s)"
  shows "Q (executeLoop realm reg ext prior ctx steps index st)"
  using init
proof (induction "length steps - index" arbitrary: index st rule: less_induct)
  case less
  show ?case
  proof (cases "index < length steps")
    case False
    from fin [OF less.prems False] False show ?thesis
      by (subst executeLoop.simps) simp
  next
    case True
    show ?thesis
    proof (cases "executeStep realm reg ext prior ctx (steps ! index) index st")
      case (Break p)
      obtain j t where p: "p = (j, t)" by (cases p)
      from brk [OF less.prems True] Break p have "Q (Inr j, t)" by simp
      with True Break p show ?thesis
        by (subst executeLoop.simps) simp
    next
      case (Raise e t)
      from rais [OF less.prems True Raise] True Raise show ?thesis
        by (subst executeLoop.simps) simp
    next
      case (Continue s')
      have "I (Suc index) s'" by (rule cont [OF less.prems True Continue])
      then have "Q (executeLoop realm reg ext prior ctx steps (Suc index) s')"
        using True by (intro less.hyps) auto
      with True Continue show ?thesis
        by (subst executeLoop.simps) simp
    qed
  qed
qed

lemma length_arraySet: "length (arraySet xs i v) = max (length xs) (Suc i)"
  by (auto simp: arraySet_def)

lemma set_arraySet: "set (arraySet xs i v) \<subseteq> insert None (insert (Some v) (set xs))"
  by (auto simp: arraySet_def dest: set_update_subset_insert [THEN subsetD])

lemma arraySet_mem: "Some v \<in> set (arraySet xs i v)"
  by (auto simp: arraySet_def set_update_memI)

lemma arraySet_append: "arraySet xs (length xs) v = xs @ [Some v]"
  by (simp add: arraySet_def)

lemma executeOneJob_status:
  "jj_status (res_journal (executeOneJob jb ctx args journal)) =
     (case completion (executor jb (jobContext ctx) args) of
        Returned v \<Rightarrow> Some Done | Threw e \<Rightarrow> Some Exception)"
  by (simp add: executeOneJob_def Let_def split: completion.split)

lemma executeOneJob_status_cases:
  "jj_status (res_journal (executeOneJob jb ctx args journal)) = Some Done \<or>
   jj_status (res_journal (executeOneJob jb ctx args journal)) = Some Exception"
  by (simp add: executeOneJob_status split: completion.split)

lemma executeOneJob_done:
  "res_done (executeOneJob jb ctx args journal) = doneCalled (executor jb (jobContext ctx) args)"
  by (simp add: executeOneJob_def Let_def split: completion.split)

lemma executeStep_cases [case_names prior missing ran]:
  obtains
    (prior) "previousDone (arrayGet (jl_steps prior) (int i))"
      "executeStep realm reg ext prior ctx step i st = Break st"
  | (missing) "\<not> previousDone (arrayGet (jl_steps prior) (int i))"
      "jobs reg (step_name step) = None"
      "executeStep realm reg ext prior ctx step i st = Raise (JobNotFound (step_name step)) (snd st)"
  | (ran) jb res c j' where
      "\<not> previousDone (arrayGet (jl_steps prior) (int i))"
      "jobs reg (step_name step) = Some jb"
      "res = executeOneJob jb (stepContext step ctx) (stepArgs realm step jb ext (fst st) i)
               (arrayGet (jl_steps prior) (int i))"
      "c = \<lparr>call_index = i, call_job = jb, call_ctx = jobContext (stepContext step ctx),
            call_args = stepArgs realm step jb ext (fst st) i, call_result = res\<rparr>"
      "j' = (fst st)\<lparr>jl_steps := arraySet (jl_steps (fst st)) i (res_journal res)\<rparr>"
      "executeStep realm reg ext prior ctx step i st =
         (if jj_status (res_journal res) \<noteq> Some Done
          then Break (j'\<lparr>jl_status := jj_status (res_journal res)\<rparr>, snd st @ [c])
          else if res_done res then Break (j', snd st @ [c])
          else Continue (j', snd st @ [c]))"
proof (cases "previousDone (arrayGet (jl_steps prior) (int i))")
  case True
  then have "executeStep realm reg ext prior ctx step i st = Break st"
    by (simp add: executeStep_def)
  with True show ?thesis by (rule prior)
next
  case nd: False
  show ?thesis
  proof (cases "jobs reg (step_name step)")
    case None
    with nd have "executeStep realm reg ext prior ctx step i st = Raise (JobNotFound (step_name step)) (snd st)"
      by (simp add: executeStep_def)
    with nd None show ?thesis by (rule missing)
  next
    case (Some jb)
    show ?thesis
      by (rule ran [OF nd Some refl refl refl]) (simp add: executeStep_def nd Some Let_def)
  qed
qed

lemma executeJobLine_cases [case_names exits invalid ran]:
  obtains
    (exits) "executeJobLine realm reg r opts = (Exits, [])"
  | (invalid) e where "executeJobLine realm reg r opts = (Throws e, [])"
  | (ran) jobLine ext where
      "resolveJobLine reg r = Some jobLine"
      "validateArgs realm jobLine opts = Inr (ext, [])"
      "executeJobLine realm reg r opts =
         (case executeLoop realm reg ext (resumptionJournal jobLine ext opts) None (line_steps jobLine) 0
                 (startJournal jobLine ext, []) of
            (Inl e, t) \<Rightarrow> (Throws e, t)
          | (Inr j, t) \<Rightarrow> (Returns (finishLine j), t))"
proof (cases "resolveJobLine reg r")
  case None
  then show ?thesis by (intro exits) (simp add: executeJobLine_def)
next
  case (Some jobLine)
  show ?thesis
  proof (cases "validateArgs realm jobLine opts")
    case (Inl e)
    with Some show ?thesis by (intro invalid [of e]) (simp add: executeJobLine_def)
  next
    case (Inr p)
    obtain ext lacked where p: "p = (ext, lacked)" by (cases p)
    show ?thesis
    proof (cases "lacked = []")
      case True
      with Some Inr p show ?thesis
        by (intro ran [of jobLine ext]) (simp_all add: executeJobLine_def)
    next
      case False
      with Some Inr p show ?thesis by (intro exits) (simp add: executeJobLine_def)
    qed
  qed
qed

section \<open>Registration\<close>

text \<open>
  C8: a second registration under a name raises and leaves the registry as it was, so the
  name still maps to the item registered first; registering an absent item does nothing
  and raises nothing. This holds for jobs and for job lines.
\<close>

theorem register_duplicate_rejected:
  "(registerJob (Some j1) reg = (r1, reg1) \<and> job_name j2 = job_name j1 \<longrightarrow>
      registerJob (Some j2) reg1 = (Some (JobExists (job_name j1)), reg1) \<and>
      (r1 = None \<longrightarrow> jobs reg1 (job_name j1) = Some j1)) \<and>
   (registerJobLine (Some l1) reg = (q1, reg2) \<and> line_name l2 = line_name l1 \<longrightarrow>
      registerJobLine (Some l2) reg2 = (Some (JobLineExists (line_name l1)), reg2) \<and>
      (q1 = None \<longrightarrow> jobLines reg2 (line_name l1) = Some l1)) \<and>
   registerJob None reg = (None, reg) \<and>
   registerJobLine None reg = (None, reg)"
  by (auto simp: registerJob_def registerJobLine_def split: option.splits)

theorem register_duplicate_rejected_witness:
  "registerJob (Some (exampleJob ''a'' [] setX)) emptyRegistry =
     (None, emptyRegistry\<lparr>jobs := [''a'' \<mapsto> exampleJob ''a'' [] setX]\<rparr>) \<and>
   registerJob (Some (exampleJob ''a'' [] failing))
       (emptyRegistry\<lparr>jobs := [''a'' \<mapsto> exampleJob ''a'' [] setX]\<rparr>) =
     (Some (JobExists ''a''), emptyRegistry\<lparr>jobs := [''a'' \<mapsto> exampleJob ''a'' [] setX]\<rparr>) \<and>
   registerJobLine (Some (exampleLine [])) emptyRegistry =
     (None, emptyRegistry\<lparr>jobLines := [''line'' \<mapsto> exampleLine []]\<rparr>) \<and>
   registerJobLine (Some (exampleLine [exampleStep ''a'' []]))
       (emptyRegistry\<lparr>jobLines := [''line'' \<mapsto> exampleLine []]\<rparr>) =
     (Some (JobLineExists ''line''), emptyRegistry\<lparr>jobLines := [''line'' \<mapsto> exampleLine []]\<rparr>)"
proof -
  have a: "registerJob (Some (exampleJob ''a'' [] setX)) emptyRegistry =
     (None, emptyRegistry\<lparr>jobs := [''a'' \<mapsto> exampleJob ''a'' [] setX]\<rparr>)"
    by (simp add: registerJob_def emptyRegistry_def exampleJob_def)
  have b: "registerJobLine (Some (exampleLine [])) emptyRegistry =
     (None, emptyRegistry\<lparr>jobLines := [''line'' \<mapsto> exampleLine []]\<rparr>)"
    by (simp add: registerJobLine_def emptyRegistry_def exampleLine_def)
  have n: "job_name (exampleJob ''a'' [] failing) = job_name (exampleJob ''a'' [] setX)"
    "line_name (exampleLine [exampleStep ''a'' []]) = line_name (exampleLine [])"
    by (simp_all add: exampleJob_def exampleLine_def)
  from register_duplicate_rejected
    [of "exampleJob ''a'' [] setX" emptyRegistry None
        "emptyRegistry\<lparr>jobs := [''a'' \<mapsto> exampleJob ''a'' [] setX]\<rparr>"
        "exampleJob ''a'' [] failing"
        "exampleLine []" None "emptyRegistry\<lparr>jobLines := [''line'' \<mapsto> exampleLine []]\<rparr>"
        "exampleLine [exampleStep ''a'' []]"] a b n
  show ?thesis by (simp add: exampleJob_def exampleLine_def)
qed

section \<open>Failure of an executor\<close>

lemma trace_no_throw_step:
  assumes "\<forall>c\<in>set (snd st). \<not> threw c"
  shows "case executeStep realm reg ext prior ctx step i st of
           Continue s' \<Rightarrow> \<forall>c\<in>set (snd s'). \<not> threw c
         | Raise e t \<Rightarrow> \<forall>c\<in>set t. \<not> threw c
         | Break (j, t) \<Rightarrow> \<forall>c\<in>set t. threw c \<longrightarrow> jl_status j = Some Exception"
proof (cases rule: executeStep_cases [of prior i realm reg ext ctx step st])
  case prior
  with assms show ?thesis by (cases st) simp
next
  case missing
  with assms show ?thesis by simp
next
  case (ran jb res c j')
  have st: "jj_status (res_journal res) = Some Done \<longleftrightarrow> \<not> threw c"
    unfolding ran(3,4) threw_def
    by (simp add: executeOneJob_status split: completion.split)
  have ex: "jj_status (res_journal res) \<noteq> Some Done \<Longrightarrow> jj_status (res_journal res) = Some Exception"
    unfolding ran(3) using executeOneJob_status_cases by blast
  show ?thesis
    unfolding ran(6) using assms st ex by auto
qed

text \<open>
  C4: when the executor throws, \<open>executeOneJob\<close> still returns a result: its journal has
  status \<open>exception\<close> and the output of the journal it started from (\<open>null\<close> for a
  fresh journal). A run of a line in which some executor threw ends by returning a journal
  with status \<open>exception\<close>; it does not end with an error.
\<close>

theorem executor_failure_absorbed:
  "(completion (executor jb (jobContext ctx) args) = Threw err \<longrightarrow>
      jj_status (res_journal (executeOneJob jb ctx args journal)) = Some Exception \<and>
      jj_output (res_journal (executeOneJob jb ctx args journal)) =
        (case journal of Some j \<Rightarrow> jj_output j | None \<Rightarrow> JNull)) \<and>
   (\<forall>c\<in>set (snd (executeJobLine realm reg r opts)). threw c \<longrightarrow>
      (\<exists>J. fst (executeJobLine realm reg r opts) = Returns J \<and> jl_status J = Some Exception))"
proof (intro conjI impI)
  assume "completion (executor jb (jobContext ctx) args) = Threw err"
  then show "jj_status (res_journal (executeOneJob jb ctx args journal)) = Some Exception"
    by (simp add: executeOneJob_def Let_def)
next
  assume "completion (executor jb (jobContext ctx) args) = Threw err"
  then show "jj_output (res_journal (executeOneJob jb ctx args journal)) =
        (case journal of Some j \<Rightarrow> jj_output j | None \<Rightarrow> JNull)"
    by (simp add: executeOneJob_def Let_def freshJournal_def split: option.split)
next
  show "\<forall>c\<in>set (snd (executeJobLine realm reg r opts)). threw c \<longrightarrow>
      (\<exists>J. fst (executeJobLine realm reg r opts) = Returns J \<and> jl_status J = Some Exception)"
  proof (cases rule: executeJobLine_cases [of realm reg r opts])
    case exits
    then show ?thesis by simp
  next
    case (invalid e)
    then show ?thesis by simp
  next
    case (ran jobLine ext)
    let ?loop = "executeLoop realm reg ext (resumptionJournal jobLine ext opts) None (line_steps jobLine) 0
                 (startJournal jobLine ext, [])"
    have "\<forall>c\<in>set (snd ?loop). threw c \<longrightarrow> (\<exists>j. fst ?loop = Inr j \<and> jl_status j = Some Exception)"
    proof (rule executeLoop_rule [where I = "\<lambda>i st. \<forall>c\<in>set (snd st). \<not> threw c"], goal_cases)
      case 1
      show ?case by simp
    next
      case (2 i s s')
      with trace_no_throw_step [OF 2(1), of realm reg ext "resumptionJournal jobLine ext opts" None
          "line_steps jobLine ! i" i]
      show ?case by simp
    next
      case (3 i s j t)
      with trace_no_throw_step [OF 3(1), of realm reg ext "resumptionJournal jobLine ext opts" None
          "line_steps jobLine ! i" i]
      show ?case by simp
    next
      case (4 i s e t)
      with trace_no_throw_step [OF 4(1), of realm reg ext "resumptionJournal jobLine ext opts" None
          "line_steps jobLine ! i" i]
      show ?case by simp
    next
      case (5 i s)
      then show ?case by simp
    qed
    then show ?thesis
      unfolding ran(3) by (auto simp: finishLine_def split: prod.splits sum.splits)
  qed
qed

theorem executor_failure_absorbed_witness:
  "completion (executor (exampleJob ''fail'' [] failing) (jobContext None) emptyRecord) =
     Threw (JStr ''boom'') \<and>
   jj_status (res_journal (executeOneJob (exampleJob ''fail'' [] failing) None emptyRecord
     (Some \<lparr>jj_name = ''fail'', jj_input = emptyRecord, jj_output = JNum 7,
            jj_status = Some Exception\<rparr>))) = Some Exception \<and>
   jj_output (res_journal (executeOneJob (exampleJob ''fail'' [] failing) None emptyRecord
     (Some \<lparr>jj_name = ''fail'', jj_input = emptyRecord, jj_output = JNum 7,
            jj_status = Some Exception\<rparr>))) = JNum 7 \<and>
   (\<exists>c\<in>set (snd (executeJobLine exampleRealm exampleRegistry
        (Direct (exampleLine [exampleStep ''set'' [], exampleStep ''fail'' []])) None)). threw c) \<and>
   (\<exists>J. fst (executeJobLine exampleRealm exampleRegistry
        (Direct (exampleLine [exampleStep ''set'' [], exampleStep ''fail'' []])) None) = Returns J \<and>
      jl_status J = Some Exception)"
proof -
  have h1: "completion (executor (exampleJob ''fail'' [] failing) (jobContext None) emptyRecord) =
     Threw (JStr ''boom'')"
    by (simp add: example_defs)
  have h2: "\<exists>c\<in>set (snd (executeJobLine exampleRealm exampleRegistry
        (Direct (exampleLine [exampleStep ''set'' [], exampleStep ''fail'' []])) None)). threw c"
    by (simp add: run_defs example_defs threw_def)
  from executor_failure_absorbed
    [of "exampleJob ''fail'' [] failing" None emptyRecord "JStr ''boom''"
        "Some \<lparr>jj_name = ''fail'', jj_input = emptyRecord, jj_output = JNum 7,
            jj_status = Some Exception\<rparr>"
        exampleRealm exampleRegistry
        "Direct (exampleLine [exampleStep ''set'' [], exampleStep ''fail'' []])" None] h1 h2
  show ?thesis by auto
qed

section \<open>Length of the journal\<close>

lemma executeStep_length:
  assumes "length (jl_steps (fst st)) \<le> i"
  shows "case executeStep realm reg ext prior ctx step i st of
           Continue s' \<Rightarrow> length (jl_steps (fst s')) \<le> Suc i
         | Raise e t \<Rightarrow> True
         | Break (j, t) \<Rightarrow> length (jl_steps j) \<le> Suc i"
proof (cases rule: executeStep_cases [of prior i realm reg ext ctx step st])
  case prior
  with assms show ?thesis by (cases st) simp
next
  case missing
  then show ?thesis by simp
next
  case (ran jb res c j')
  have "length (jl_steps j') \<le> Suc i"
    unfolding ran(5) using assms by (simp add: length_arraySet)
  then show ?thesis
    unfolding ran(6) by simp
qed

text \<open>
  C9: the journal that \<open>executeJobLine\<close> returns has at most as many step entries as
  the line has steps.
\<close>

theorem journal_steps_bounded:
  assumes "resolveJobLine reg r = Some jobLine"
    and "executeJobLine realm reg r opts = (Returns J, t)"
  shows "length (jl_steps J) \<le> length (line_steps jobLine)"
proof (cases rule: executeJobLine_cases [of realm reg r opts])
  case exits
  with assms show ?thesis by simp
next
  case (invalid e)
  with assms show ?thesis by simp
next
  case (ran jobLine' ext)
  with assms have same: "jobLine' = jobLine" by simp
  let ?steps = "line_steps jobLine"
  let ?loop = "executeLoop realm reg ext (resumptionJournal jobLine ext opts) None ?steps 0
                 (startJournal jobLine ext, [])"
  have "\<forall>j. fst ?loop = Inr j \<longrightarrow> length (jl_steps j) \<le> length ?steps"
  proof (rule executeLoop_rule [where I = "\<lambda>i st. length (jl_steps (fst st)) \<le> i \<and> i \<le> length ?steps"], goal_cases)
    case 1
    show ?case by (simp add: startJournal_def)
  next
    case (2 i s s')
    with executeStep_length [of s i realm reg ext "resumptionJournal jobLine ext opts" None "?steps ! i"]
    show ?case by simp
  next
    case (3 i s j t)
    with executeStep_length [of s i realm reg ext "resumptionJournal jobLine ext opts" None "?steps ! i"]
    show ?case by simp
  next
    case (4 i s e t)
    show ?case by simp
  next
    case (5 i s)
    then show ?case by simp
  qed
  with assms(2) show ?thesis
    unfolding ran(3) same by (auto simp: finishLine_def split: prod.splits sum.splits if_splits)
qed

theorem journal_steps_bounded_witness:
  "resolveJobLine exampleRegistry
     (Direct (exampleLine [exampleStep ''set'' [], exampleStep ''fail'' [], exampleStep ''read'' []])) =
     Some (exampleLine [exampleStep ''set'' [], exampleStep ''fail'' [], exampleStep ''read'' []]) \<and>
   (\<exists>J t. executeJobLine exampleRealm exampleRegistry
      (Direct (exampleLine [exampleStep ''set'' [], exampleStep ''fail'' [], exampleStep ''read'' []]))
      None = (Returns J, t) \<and> length (jl_steps J) = 2 \<and>
      length (jl_steps J) \<le>
        length (line_steps (exampleLine [exampleStep ''set'' [], exampleStep ''fail'' [], exampleStep ''read'' []])))"
proof -
  let ?line = "exampleLine [exampleStep ''set'' [], exampleStep ''fail'' [], exampleStep ''read'' []]"
  obtain J t where run: "executeJobLine exampleRealm exampleRegistry (Direct ?line) None = (Returns J, t)"
    and len: "length (jl_steps J) = 2"
    by (simp add: run_defs example_defs)
  have res: "resolveJobLine exampleRegistry (Direct ?line) = Some ?line"
    by (simp add: resolveJobLine_def)
  from journal_steps_bounded [OF res run] run len res show ?thesis by blast
qed

section \<open>Status of the returned journal\<close>

lemma executeStep_status:
  assumes "jl_status (fst st) = Some Pending"
    and "\<forall>e. Some e \<in> set (jl_steps (fst st)) \<longrightarrow> jj_status e = Some Done"
    and "\<forall>c\<in>set (snd st). jj_status (res_journal (call_result c)) = Some Done"
  shows "case executeStep realm reg ext prior ctx step i st of
           Continue (j, t) \<Rightarrow>
             jl_status j = Some Pending \<and>
             (\<forall>e. Some e \<in> set (jl_steps j) \<longrightarrow> jj_status e = Some Done) \<and>
             (\<forall>c\<in>set t. jj_status (res_journal (call_result c)) = Some Done)
         | Raise e t \<Rightarrow> True
         | Break (j, t) \<Rightarrow>
             (jl_status j = Some Pending \<and>
              (\<forall>e. Some e \<in> set (jl_steps j) \<longrightarrow> jj_status e = Some Done) \<and>
              (\<forall>c\<in>set t. jj_status (res_journal (call_result c)) = Some Done)) \<or>
             (jl_status j = Some Exception \<and>
              (\<exists>e. Some e \<in> set (jl_steps j) \<and> jj_status e \<noteq> Some Done) \<and>
              (\<exists>c\<in>set t. jj_status (res_journal (call_result c)) \<noteq> Some Done))"
proof (cases rule: executeStep_cases [of prior i realm reg ext ctx step st])
  case prior
  with assms show ?thesis by (cases st) simp
next
  case missing
  then show ?thesis by simp
next
  case (ran jb res c j')
  have ex: "jj_status (res_journal res) \<noteq> Some Done \<Longrightarrow> jj_status (res_journal res) = Some Exception"
    unfolding ran(3) using executeOneJob_status_cases by blast
  have mem: "Some (res_journal res) \<in> set (jl_steps j')"
    unfolding ran(5) by (simp add: arraySet_mem)
  have sub: "\<And>e. Some e \<in> set (jl_steps j') \<Longrightarrow> e = res_journal res \<or> Some e \<in> set (jl_steps (fst st))"
    unfolding ran(5) using set_arraySet [of "jl_steps (fst st)" i "res_journal res"] by auto
  have pend: "jl_status j' = Some Pending"
    unfolding ran(5) using assms(1) by simp
  have cres: "call_result c = res" unfolding ran(4) by simp
  show ?thesis
  proof (cases "jj_status (res_journal res) = Some Done")
    case True
    with sub assms(2) have "\<forall>e. Some e \<in> set (jl_steps j') \<longrightarrow> jj_status e = Some Done"
      by blast
    moreover from True cres assms(3)
    have "\<forall>c\<in>set (snd st @ [c]). jj_status (res_journal (call_result c)) = Some Done"
      by simp
    ultimately show ?thesis
      unfolding ran(6) using True pend by simp
  next
    case False
    from False mem have "\<exists>e. Some e \<in> set (jl_steps j') \<and> jj_status e \<noteq> Some Done"
      by blast
    moreover from False cres
    have "\<exists>c\<in>set (snd st @ [c]). jj_status (res_journal (call_result c)) \<noteq> Some Done"
      by simp
    ultimately show ?thesis
      unfolding ran(6) using False ex by simp
  qed
qed

text \<open>
  C10: a returned journal never has status \<open>pending\<close>. Its status is \<open>exception\<close>
  exactly when some executed step ended with a status other than \<open>done\<close> (stated both
  for the recorded calls and for the entries of the journal), and \<open>done\<close> otherwise.
\<close>

theorem line_status_final:
  assumes "executeJobLine realm reg r opts = (Returns J, t)"
  shows "jl_status J \<noteq> Some Pending \<and>
         (jl_status J = Some Exception \<or> jl_status J = Some Done) \<and>
         (jl_status J = Some Exception \<longleftrightarrow>
            (\<exists>c\<in>set t. jj_status (res_journal (call_result c)) \<noteq> Some Done)) \<and>
         (jl_status J = Some Exception \<longleftrightarrow>
            (\<exists>e. Some e \<in> set (jl_steps J) \<and> jj_status e \<noteq> Some Done))"
proof (cases rule: executeJobLine_cases [of realm reg r opts])
  case exits
  with assms show ?thesis by simp
next
  case (invalid e)
  with assms show ?thesis by simp
next
  case (ran jobLine ext)
  let ?steps = "line_steps jobLine"
  let ?prior = "resumptionJournal jobLine ext opts"
  let ?loop = "executeLoop realm reg ext ?prior None ?steps 0 (startJournal jobLine ext, [])"
  let ?good = "\<lambda>j t. jl_status j = Some Pending \<and>
              (\<forall>e. Some e \<in> set (jl_steps j) \<longrightarrow> jj_status e = Some Done) \<and>
              (\<forall>c\<in>set t. jj_status (res_journal (call_result c)) = Some Done)"
  let ?bad = "\<lambda>j t. jl_status j = Some Exception \<and>
              (\<exists>e. Some e \<in> set (jl_steps j) \<and> jj_status e \<noteq> Some Done) \<and>
              (\<exists>c\<in>set t. jj_status (res_journal (call_result c)) \<noteq> Some Done)"
  have "\<forall>j. fst ?loop = Inr j \<longrightarrow> ?good j (snd ?loop) \<or> ?bad j (snd ?loop)"
  proof (rule executeLoop_rule [where I = "\<lambda>i st. ?good (fst st) (snd st)"], goal_cases)
    case 1
    show ?case by (simp add: startJournal_def)
  next
    case (2 i s s')
    with executeStep_status [of s realm reg ext ?prior None "?steps ! i" i]
    show ?case by (cases s') simp
  next
    case (3 i s j t)
    with executeStep_status [of s realm reg ext ?prior None "?steps ! i" i]
    show ?case by simp
  next
    case (4 i s e t)
    show ?case by simp
  next
    case (5 i s)
    then show ?case by simp
  qed
  moreover from assms obtain j where "?loop = (Inr j, t)" and "J = finishLine j"
    unfolding ran(3) by (auto split: prod.splits sum.splits)
  ultimately have disj: "?good j t \<or> ?bad j t" and J: "J = finishLine j"
    by auto
  from disj show ?thesis
  proof
    assume "?good j t"
    then show ?thesis unfolding J by (simp add: finishLine_def)
  next
    assume "?bad j t"
    then show ?thesis unfolding J by (auto simp: finishLine_def)
  qed
qed

theorem line_status_final_witness:
  "(\<exists>J t. executeJobLine exampleRealm exampleRegistry
      (Direct (exampleLine [exampleStep ''set'' [], exampleStep ''fail'' [], exampleStep ''read'' []]))
      None = (Returns J, t) \<and> jl_status J = Some Exception) \<and>
   (\<exists>J t. executeJobLine exampleRealm exampleRegistry
      (Direct (exampleLine [exampleStep ''stop'' [], exampleStep ''fail'' []]))
      None = (Returns J, t) \<and> jl_status J = Some Done)"
proof -
  obtain J t where run: "executeJobLine exampleRealm exampleRegistry
      (Direct (exampleLine [exampleStep ''set'' [], exampleStep ''fail'' [], exampleStep ''read'' []]))
      None = (Returns J, t)"
    and bad: "\<exists>c\<in>set t. jj_status (res_journal (call_result c)) \<noteq> Some Done"
    by (simp add: run_defs example_defs)
  obtain J' t' where run': "executeJobLine exampleRealm exampleRegistry
      (Direct (exampleLine [exampleStep ''stop'' [], exampleStep ''fail'' []]))
      None = (Returns J', t')"
    and good: "\<forall>c\<in>set t'. jj_status (res_journal (call_result c)) = Some Done"
    by (simp add: run_defs example_defs)
  from line_status_final [OF run] bad have "jl_status J = Some Exception" by blast
  moreover from line_status_final [OF run'] good have "jl_status J' = Some Done" by blast
  ultimately show ?thesis using run run' by blast
qed

section \<open>Resumption\<close>

lemma executeLoop_previousDone:
  assumes "previousDone (arrayGet (jl_steps prior) (int k))"
  shows "executeLoop realm reg ext prior ctx steps k st = (Inr (fst st), snd st)"
proof (cases "k < length steps")
  case True
  have "executeStep realm reg ext prior ctx (steps ! k) k st = Break st"
    using assms by (simp add: executeStep_def)
  with True show ?thesis
    by (subst executeLoop.simps) (cases st, simp)
next
  case False
  then show ?thesis by (subst executeLoop.simps) simp
qed

lemma executeStep_before:
  assumes "length (jl_steps (fst st)) \<le> i" and "\<forall>c\<in>set (snd st). call_index c < i"
  shows "case executeStep realm reg ext prior ctx step i st of
           Continue (j, t) \<Rightarrow> length (jl_steps j) \<le> Suc i \<and> (\<forall>c\<in>set t. call_index c < Suc i)
         | Raise e t \<Rightarrow> \<forall>c\<in>set t. call_index c < i
         | Break (j, t) \<Rightarrow> length (jl_steps j) \<le> Suc i \<and> (\<forall>c\<in>set t. call_index c < Suc i)"
proof (cases rule: executeStep_cases [of prior i realm reg ext ctx step st])
  case prior
  with assms show ?thesis by (cases st) auto
next
  case missing
  with assms show ?thesis by simp
next
  case (ran jb res c j')
  have "length (jl_steps j') \<le> Suc i"
    unfolding ran(5) using assms(1) by (simp add: length_arraySet)
  moreover have "\<forall>c\<in>set (snd st @ [c]). call_index c < Suc i"
    using assms(2) unfolding ran(4) by auto
  ultimately show ?thesis
    unfolding ran(6) by simp
qed

text \<open>
  C2: when the resumption journal has an entry with status \<open>done\<close> at index \<open>k\<close>, the
  loop stops as soon as it is at index \<open>k\<close>, with the journal and the calls as they
  were, whatever the later entries are. So no executor is called for a step at index
  \<open>k\<close> or later, and a returned journal has no entry at index \<open>k\<close> or later.
\<close>

theorem resumption_done_stops_line:
  assumes "opts = Some opt"
    and "opt_previousJobLineJournal opt = Some prior"
    and "arrayGet (jl_steps prior) (int k) = Some pj"
    and "jj_status pj = Some Done"
  shows "(\<forall>ext ctx steps st. executeLoop realm reg ext prior ctx steps k st = (Inr (fst st), snd st)) \<and>
         (\<forall>c\<in>set (snd (executeJobLine realm reg r opts)). call_index c < k) \<and>
         (\<forall>J. fst (executeJobLine realm reg r opts) = Returns J \<longrightarrow> length (jl_steps J) \<le> k)"
proof -
  from assms(3,4) have pd: "previousDone (arrayGet (jl_steps prior) (int k))"
    by (simp add: previousDone_def)
  have stop: "\<And>ext ctx steps st. executeLoop realm reg ext prior ctx steps k st = (Inr (fst st), snd st)"
    by (rule executeLoop_previousDone [OF pd])
  have run: "(\<forall>c\<in>set (snd (executeJobLine realm reg r opts)). call_index c < k) \<and>
         (\<forall>J. fst (executeJobLine realm reg r opts) = Returns J \<longrightarrow> length (jl_steps J) \<le> k)"
  proof (cases rule: executeJobLine_cases [of realm reg r opts])
    case exits
    then show ?thesis by simp
  next
    case (invalid e)
    then show ?thesis by simp
  next
    case (ran jobLine ext)
    let ?steps = "line_steps jobLine"
    let ?loop = "executeLoop realm reg ext prior None ?steps 0 (startJournal jobLine ext, [])"
    have prior: "resumptionJournal jobLine ext opts = prior"
      using assms(1,2) by (simp add: resumptionJournal_def)
    have "(\<forall>c\<in>set (snd ?loop). call_index c < k) \<and>
          (\<forall>j. fst ?loop = Inr j \<longrightarrow> length (jl_steps j) \<le> k)"
    proof (rule executeLoop_rule
        [where I = "\<lambda>i st. i \<le> k \<and> length (jl_steps (fst st)) \<le> i \<and>
                      (\<forall>c\<in>set (snd st). call_index c < i)"], goal_cases)
      case 1
      show ?case by (simp add: startJournal_def)
    next
      case (2 i s s')
      have "i \<noteq> k"
      proof
        assume "i = k"
        with pd have "executeStep realm reg ext prior None (?steps ! i) i s = Break s"
          by (simp add: executeStep_def)
        with 2(3) show False by simp
      qed
      with 2 executeStep_before [of s i realm reg ext prior None "?steps ! i"]
      show ?case by (cases s') auto
    next
      case (3 i s j t)
      show ?case
      proof (cases "i = k")
        case True
        with pd have "executeStep realm reg ext prior None (?steps ! i) i s = Break s"
          by (simp add: executeStep_def)
        with 3 True show ?thesis by auto
      next
        case False
        with 3 executeStep_before [of s i realm reg ext prior None "?steps ! i"]
        show ?thesis by auto
      qed
    next
      case (4 i s e t)
      with executeStep_before [of s i realm reg ext prior None "?steps ! i"]
      show ?case by auto
    next
      case (5 i s)
      then show ?case by auto
    qed
    then show ?thesis
      unfolding ran(3) prior by (auto simp: finishLine_def split: prod.splits sum.splits)
  qed
  from stop run show ?thesis by blast
qed

theorem resumption_done_stops_line_witness:
  "arrayGet (jl_steps examplePrior) (int 1) =
     Some \<lparr>jj_name = ''read'', jj_input = emptyRecord, jj_output = JNum 3, jj_status = Some Done\<rparr> \<and>
   map call_index (snd (executeJobLine exampleRealm exampleRegistry
      (Direct (exampleLine [exampleStep ''set'' [], exampleStep ''read'' [], exampleStep ''fail'' []]))
      resumeOptions)) = [0] \<and>
   (\<exists>J. fst (executeJobLine exampleRealm exampleRegistry
      (Direct (exampleLine [exampleStep ''set'' [], exampleStep ''read'' [], exampleStep ''fail'' []]))
      resumeOptions) = Returns J \<and> length (jl_steps J) \<le> 1)"
proof -
  let ?run = "executeJobLine exampleRealm exampleRegistry
      (Direct (exampleLine [exampleStep ''set'' [], exampleStep ''read'' [], exampleStep ''fail'' []]))
      resumeOptions"
  have o: "resumeOptions = Some \<lparr>opt_args = None, opt_previousJobLineJournal = Some examplePrior\<rparr>"
    by (simp add: resumeOptions_def)
  have p: "opt_previousJobLineJournal \<lparr>opt_args = None, opt_previousJobLineJournal = Some examplePrior\<rparr>
      = Some examplePrior"
    by simp
  have e: "arrayGet (jl_steps examplePrior) (int 1) =
     Some \<lparr>jj_name = ''read'', jj_input = emptyRecord, jj_output = JNum 3, jj_status = Some Done\<rparr>"
    by (simp add: examplePrior_def arrayGet_def)
  have d: "jj_status \<lparr>jj_name = ''read'', jj_input = emptyRecord, jj_output = JNum 3,
      jj_status = Some Done\<rparr> = Some Done"
    by simp
  obtain J where J: "fst ?run = Returns J"
    and idx: "map call_index (snd ?run) = [0]"
    by (simp add: run_defs example_defs resumeOptions_def examplePrior_def)
  from resumption_done_stops_line [OF o p e d, of exampleRealm exampleRegistry
      "Direct (exampleLine [exampleStep ''set'' [], exampleStep ''read'' [], exampleStep ''fail'' []])"]
    J have "length (jl_steps J) \<le> 1" by blast
  with e J idx show ?thesis by blast
qed

section \<open>Unregistered jobs\<close>







section \<open>A failing second step\<close>

lemma executeStep_summary:
  assumes "map call_index (snd st) = [0..<i]"
    and "jl_steps (fst st) = map journalOf (snd st)"
    and "jl_status (fst st) = Some Pending"
    and "\<forall>c\<in>set (snd st). \<not> threw c \<and> jj_status (res_journal (call_result c)) = Some Done"
  shows "case executeStep realm reg ext prior ctx step i st of
           Continue (j, t) \<Rightarrow>
             map call_index t = [0..<Suc i] \<and> jl_steps j = map journalOf t \<and>
             jl_status j = Some Pending \<and>
             (\<forall>c\<in>set t. \<not> threw c \<and> jj_status (res_journal (call_result c)) = Some Done)
         | Raise e t \<Rightarrow> \<forall>c\<in>set t. \<not> threw c
         | Break (j, t) \<Rightarrow>
             map call_index t = [0..<length t] \<and> jl_steps j = map journalOf t \<and>
             (\<forall>c\<in>set (butlast t). \<not> threw c \<and> jj_status (res_journal (call_result c)) = Some Done) \<and>
             (t = [] \<or> \<not> threw (last t) \<and> jj_status (res_journal (call_result (last t))) = Some Done
                \<longrightarrow> jl_status j = Some Pending) \<and>
             (t \<noteq> [] \<and> threw (last t) \<longrightarrow>
                jl_status j = Some Exception \<and>
                jj_status (res_journal (call_result (last t))) = Some Exception)"
proof (cases rule: executeStep_cases [of prior i realm reg ext ctx step st])
  case prior
  from assms(1) have "length (snd st) = i"
    by (metis length_map length_upt minus_nat.diff_0)
  with assms prior show ?thesis
    by (cases st) (auto dest: in_set_butlastD)
next
  case missing
  with assms(4) show ?thesis by simp
next
  case (ran jb res c j')
  from assms(1) have len: "length (snd st) = i"
    by (metis length_map length_upt minus_nat.diff_0)
  have idx: "map call_index (snd st @ [c]) = [0..<Suc i]"
    using assms(1) unfolding ran(4) by simp
  have "length (jl_steps (fst st)) = i"
    using assms(2) len by simp
  then have steps: "jl_steps j' = map journalOf (snd st @ [c])"
    unfolding ran(5) using assms(2) arraySet_append [of "jl_steps (fst st)" "res_journal res"]
    by (simp add: journalOf_def ran(4))
  have pend: "jl_status j' = Some Pending"
    unfolding ran(5) using assms(3) by simp
  have cres: "call_result c = res" unfolding ran(4) by simp
  have st: "jj_status (res_journal res) = Some Done \<longleftrightarrow> \<not> threw c"
    unfolding ran(3,4) threw_def
    by (simp add: executeOneJob_status split: completion.split)
  have ex: "jj_status (res_journal res) \<noteq> Some Done \<Longrightarrow> jj_status (res_journal res) = Some Exception"
    unfolding ran(3) using executeOneJob_status_cases by blast
  show ?thesis
  proof (cases "jj_status (res_journal res) = Some Done")
    case True
    with st assms(4) cres
    have "\<forall>c\<in>set (snd st @ [c]). \<not> threw c \<and> jj_status (res_journal (call_result c)) = Some Done"
      by auto
    with True idx steps pend len cres st show ?thesis
      unfolding ran(6) by (auto dest: in_set_butlastD)
  next
    case False
    with ex have "jj_status (res_journal res) = Some Exception" by simp
    with False idx steps len cres st assms(4) show ?thesis
      unfolding ran(6) by auto
  qed
qed

lemma run_summary:
  fixes realm reg ext prior steps jobLine
  defines "loop \<equiv> executeLoop realm reg ext prior None steps 0 (startJournal jobLine ext, [])"
  shows "case loop of
           (Inl e, t) \<Rightarrow> \<forall>c\<in>set t. \<not> threw c
         | (Inr j, t) \<Rightarrow>
             map call_index t = [0..<length t] \<and> jl_steps j = map journalOf t \<and>
             (\<forall>c\<in>set (butlast t). \<not> threw c \<and> jj_status (res_journal (call_result c)) = Some Done) \<and>
             (t = [] \<or> \<not> threw (last t) \<and> jj_status (res_journal (call_result (last t))) = Some Done
                \<longrightarrow> jl_status j = Some Pending) \<and>
             (t \<noteq> [] \<and> threw (last t) \<longrightarrow>
                jl_status j = Some Exception \<and>
                jj_status (res_journal (call_result (last t))) = Some Exception)"
  unfolding loop_def
proof (rule executeLoop_rule
    [where I = "\<lambda>i st. map call_index (snd st) = [0..<i] \<and> jl_steps (fst st) = map journalOf (snd st) \<and>
       jl_status (fst st) = Some Pending \<and>
       (\<forall>c\<in>set (snd st). \<not> threw c \<and> jj_status (res_journal (call_result c)) = Some Done)"],
    goal_cases)
  case 1
  show ?case by (simp add: startJournal_def)
next
  case (2 i s s')
  with executeStep_summary [of s i realm reg ext prior None "steps ! i"]
  show ?case by (cases s') simp
next
  case (3 i s j t)
  with executeStep_summary [of s i realm reg ext prior None "steps ! i"]
  show ?case by simp
next
  case (4 i s e t)
  with executeStep_summary [of s i realm reg ext prior None "steps ! i"]
  show ?case by simp
next
  case (5 i s)
  then have "length (snd s) = i"
    by (metis length_map length_upt minus_nat.diff_0)
  with 5 show ?case by (auto dest: in_set_butlastD)
qed

text \<open>
  C5: for a line of three steps run without a resumption journal, if the executor of the
  first step returns and the executor of the second step throws, then the journal is
  returned with two entries, the first \<open>done\<close> and the second \<open>exception\<close>, the
  status of the line is \<open>exception\<close>, and the two calls are the only calls: the third
  step's executor is not called.
\<close>

theorem second_step_throws:
  assumes "resolveJobLine reg r = Some jobLine"
    and "line_steps jobLine = [s1, s2, s3]"
    and "opts = None \<or> (\<exists>opt. opts = Some opt \<and> opt_previousJobLineJournal opt = None)"
    and "c1 \<in> set (snd (executeJobLine realm reg r opts))" and "call_index c1 = 0" and "\<not> threw c1"
    and "c2 \<in> set (snd (executeJobLine realm reg r opts))" and "call_index c2 = 1" and "threw c2"
  shows "\<exists>J j0 j1. fst (executeJobLine realm reg r opts) = Returns J \<and>
           jl_steps J = [Some j0, Some j1] \<and>
           jj_status j0 = Some Done \<and> jj_status j1 = Some Exception \<and>
           jl_status J = Some Exception \<and>
           snd (executeJobLine realm reg r opts) = [c1, c2]"
proof (cases rule: executeJobLine_cases [of realm reg r opts])
  case exits
  with assms(7) show ?thesis by simp
next
  case (invalid e)
  with assms(7) show ?thesis by simp
next
  case (ran jobLine' ext)
  let ?loop = "executeLoop realm reg ext (resumptionJournal jobLine' ext opts) None (line_steps jobLine') 0
                 (startJournal jobLine' ext, [])"
  obtain x t where loop: "?loop = (x, t)" by (cases ?loop)
  have t: "snd (executeJobLine realm reg r opts) = t"
    unfolding ran(3) loop by (simp split: sum.splits)
  note sum = run_summary [of realm reg ext "resumptionJournal jobLine' ext opts" "line_steps jobLine'" jobLine']
  from assms(7,9) t have c2: "c2 \<in> set t" "threw c2" by simp_all
  show ?thesis
  proof (cases x)
    case (Inl e)
    with sum loop c2 show ?thesis by auto
  next
    case (Inr j)
    with sum loop have idx: "map call_index t = [0..<length t]"
      and js: "jl_steps j = map journalOf t"
      and bl: "\<forall>c\<in>set (butlast t). \<not> threw c \<and> jj_status (res_journal (call_result c)) = Some Done"
      and lst: "t \<noteq> [] \<and> threw (last t) \<longrightarrow>
                jl_status j = Some Exception \<and>
                jj_status (res_journal (call_result (last t))) = Some Exception"
      by simp_all
    from c2 have ne: "t \<noteq> []" by auto
    from c2 bl have "c2 \<notin> set (butlast t)" by blast
    with c2(1) ne have last: "last t = c2"
      by (metis append_butlast_last_id set_ConsD list.set(1) empty_iff rotate1.simps(2) set_rotate1)
    from idx ne have "call_index (last t) = length t - 1"
      by (metis last_map last_upt length_greater_0_conv diff_zero map_is_Nil_conv)
    with last assms(8) have len: "length t = 2" using ne by (cases t) auto
    then obtain a b where tab: "t = [a, b]"
      by (cases t; cases "tl t") auto
    with last have b: "b = c2" by simp
    from assms(4) t tab b assms(5,8) have a: "a = c1" by auto
    from bl tab have adone: "jj_status (res_journal (call_result a)) = Some Done" by simp
    from lst tab b c2 have ex: "jl_status j = Some Exception"
      "jj_status (res_journal (call_result c2)) = Some Exception" by simp_all
    have J: "fst (executeJobLine realm reg r opts) = Returns (finishLine j)"
      unfolding ran(3) loop Inr by simp
    have "jl_steps (finishLine j) = [Some (res_journal (call_result a)), Some (res_journal (call_result c2))]"
      using js tab b by (simp add: finishLine_def journalOf_def)
    moreover have "jl_status (finishLine j) = Some Exception"
      using ex by (simp add: finishLine_def)
    ultimately show ?thesis
      using J adone ex t tab a b by blast
  qed
qed

theorem second_step_throws_witness:
  "(\<exists>c1 c2. c1 \<in> set (snd (executeJobLine exampleRealm exampleRegistry
        (Direct (exampleLine [exampleStep ''set'' [], exampleStep ''fail'' [], exampleStep ''read'' []]))
        None)) \<and> call_index c1 = 0 \<and> \<not> threw c1 \<and>
      c2 \<in> set (snd (executeJobLine exampleRealm exampleRegistry
        (Direct (exampleLine [exampleStep ''set'' [], exampleStep ''fail'' [], exampleStep ''read'' []]))
        None)) \<and> call_index c2 = 1 \<and> threw c2) \<and>
   (\<exists>J j0 j1. fst (executeJobLine exampleRealm exampleRegistry
        (Direct (exampleLine [exampleStep ''set'' [], exampleStep ''fail'' [], exampleStep ''read'' []]))
        None) = Returns J \<and>
      jl_steps J = [Some j0, Some j1] \<and> jj_status j0 = Some Done \<and>
      jj_status j1 = Some Exception \<and> jl_status J = Some Exception)"
proof -
  let ?line = "exampleLine [exampleStep ''set'' [], exampleStep ''fail'' [], exampleStep ''read'' []]"
  let ?t = "snd (executeJobLine exampleRealm exampleRegistry (Direct ?line) None)"
  have res: "resolveJobLine exampleRegistry (Direct ?line) = Some ?line"
    by (simp add: resolveJobLine_def)
  have steps: "line_steps ?line = [exampleStep ''set'' [], exampleStep ''fail'' [], exampleStep ''read'' []]"
    by (simp add: exampleLine_def)
  have c1: "?t ! 0 \<in> set ?t" "call_index (?t ! 0) = 0" "\<not> threw (?t ! 0)"
    by (simp_all add: run_defs example_defs threw_def)
  have c2: "?t ! 1 \<in> set ?t" "call_index (?t ! 1) = 1" "threw (?t ! 1)"
    by (simp_all add: run_defs example_defs threw_def)
  have no: "None = None \<or> (\<exists>opt. (None :: options option) = Some opt \<and> opt_previousJobLineJournal opt = None)"
    by simp
  from second_step_throws [OF res steps no c1 c2] c1 c2 show ?thesis by blast
qed

section \<open>The context of a step\<close>

text \<open>
  C1: a step after the first whose \<open>inheritable\<close> flag is not \<open>false\<close> is to receive
  the context returned by the step before it. In the run of the two-step line below the
  first executor returns its context with \<open>x = 1\<close>; the second step leaves the flag
  unset, and its executor receives the empty context and reads \<open>x\<close> as
  \<open>undefined\<close>.
\<close>

theorem context_not_inherited:
  "map call_index (snd (executeJobLine exampleRealm exampleRegistry
      (Direct (exampleLine [exampleStep ''set'' [], exampleStep ''read'' []])) None)) = [0, 1] \<and>
   step_inheritable (exampleStep ''read'' []) = None \<and>
   rec_own (res_ctx (call_result (snd (executeJobLine exampleRealm exampleRegistry
      (Direct (exampleLine [exampleStep ''set'' [], exampleStep ''read'' []])) None) ! 0))) ''x'' =
     Some (JNum 1) \<and>
   call_ctx (snd (executeJobLine exampleRealm exampleRegistry
      (Direct (exampleLine [exampleStep ''set'' [], exampleStep ''read'' []])) None) ! 1) = emptyRecord \<and>
   res_output (call_result (snd (executeJobLine exampleRealm exampleRegistry
      (Direct (exampleLine [exampleStep ''set'' [], exampleStep ''read'' []])) None) ! 1)) = JUndefined"
  by (simp add: run_defs example_defs)

text \<open>
  The cause: \<open>previousContext\<close> is initialised to \<open>null\<close> and never assigned, so
  \<open>executeOneJob\<close> is always called with \<open>null\<close> and makes a new empty context, in
  every run and for every step.
\<close>

lemma executeStep_context:
  assumes "\<forall>c\<in>set (snd st). call_ctx c = emptyRecord"
  shows "case executeStep realm reg ext prior None step i st of
           Continue (j, t) \<Rightarrow> \<forall>c\<in>set t. call_ctx c = emptyRecord
         | Raise e t \<Rightarrow> \<forall>c\<in>set t. call_ctx c = emptyRecord
         | Break (j, t) \<Rightarrow> \<forall>c\<in>set t. call_ctx c = emptyRecord"
proof (cases rule: executeStep_cases [of prior i realm reg ext None step st])
  case prior
  with assms show ?thesis by (cases st) simp
next
  case missing
  with assms show ?thesis by simp
next
  case (ran jb res c j')
  have "call_ctx c = emptyRecord"
    unfolding ran(4) by (simp add: stepContext_def jobContext_def)
  with assms show ?thesis
    unfolding ran(6) by simp
qed

lemma every_call_gets_empty_context:
  "\<forall>c\<in>set (snd (executeJobLine realm reg r opts)). call_ctx c = emptyRecord"
proof (cases rule: executeJobLine_cases [of realm reg r opts])
  case exits
  then show ?thesis by simp
next
  case (invalid e)
  then show ?thesis by simp
next
  case (ran jobLine ext)
  let ?prior = "resumptionJournal jobLine ext opts"
  let ?steps = "line_steps jobLine"
  let ?loop = "executeLoop realm reg ext ?prior None ?steps 0 (startJournal jobLine ext, [])"
  have "\<forall>c\<in>set (snd ?loop). call_ctx c = emptyRecord"
  proof (rule executeLoop_rule [where I = "\<lambda>i st. \<forall>c\<in>set (snd st). call_ctx c = emptyRecord"], goal_cases)
    case 1
    show ?case by simp
  next
    case (2 i s s')
    with executeStep_context [of s realm reg ext ?prior "?steps ! i" i]
    show ?case by (cases s') simp
  next
    case (3 i s j t)
    with executeStep_context [of s realm reg ext ?prior "?steps ! i" i]
    show ?case by simp
  next
    case (4 i s e t)
    with executeStep_context [of s realm reg ext ?prior "?steps ! i" i]
    show ?case by simp
  next
    case (5 i s)
    then show ?case by simp
  qed
  then show ?thesis
    unfolding ran(3) by (auto split: prod.splits sum.splits)
qed

section \<open>Resolved arguments\<close>

lemma recordSet_own_other:
  "k \<noteq> p \<Longrightarrow> rec_own (recordSet r k v) p = rec_own r p"
  by (simp add: recordSet_def)

lemma recordSet_own_same:
  "p \<noteq> ''__proto__'' \<Longrightarrow> rec_own (recordSet r p v) p = Some v"
  by (simp add: recordSet_def)

lemma recordSet_dom:
  "dom (rec_own (recordSet r k v)) \<subseteq> insert k (dom (rec_own r))"
  by (auto simp: recordSet_def split: if_splits)


lemma resolveArg_dom:
  assumes "dom (rec_own res) \<subseteq> set asg"
  shows "dom (rec_own (fst (resolveArg realm jas options (res, asg) a))) \<subseteq>
           set (snd (resolveArg realm jas options (res, asg) a))"
proof -
  have "\<And>k v. dom (rec_own (recordSet res k v)) \<subseteq> set (asg @ [k])"
    using assms recordSet_dom by fastforce
  with assms show ?thesis
    by (cases a) (simp_all add: resolveArg.simps split: option.splits)
qed


lemma foldl_resolveArg_dom:
  assumes "dom (rec_own res) \<subseteq> set asg"
  shows "dom (rec_own (fst (foldl (resolveArg realm jas options) (res, asg) as))) \<subseteq>
           set (snd (foldl (resolveArg realm jas options) (res, asg) as))"
  using assms
proof (induction as arbitrary: res asg)
  case Nil
  then show ?case by simp
next
  case (Cons a as)
  obtain res' asg' where step: "resolveArg realm jas options (res, asg) a = (res', asg')"
    by (cases "resolveArg realm jas options (res, asg) a")
  from resolveArg_dom [OF Cons.prems, of realm jas options a] step
  have "dom (rec_own res') \<subseteq> set asg'" by simp
  from Cons.IH [OF this] show ?case by (simp add: step)
qed

lemma foldl_fallbackArg:
  assumes "p \<noteq> ''__proto__''"
  shows "rec_own (foldl (fallbackArg realm ext asg) res jas) p =
     (if p \<in> set jas \<and> p \<notin> set asg then Some (recordGet realm ext p) else rec_own res p)"
proof (induction jas arbitrary: res)
  case Nil
  show ?case by simp
next
  case (Cons x xs)
  have "rec_own (foldl (fallbackArg realm ext asg) res (x # xs)) p =
      rec_own (foldl (fallbackArg realm ext asg) (fallbackArg realm ext asg res x) xs) p"
    by simp
  also have "\<dots> = (if p \<in> set xs \<and> p \<notin> set asg then Some (recordGet realm ext p)
      else rec_own (fallbackArg realm ext asg res x) p)"
    by (rule Cons.IH)
  also have "\<dots> = (if p \<in> set (x # xs) \<and> p \<notin> set asg then Some (recordGet realm ext p)
      else rec_own res p)"
  proof (cases "x = p")
    case True
    with assms show ?thesis
      by (simp add: fallbackArg_def recordSet_own_same)
  next
    case False
    then show ?thesis
      by (simp add: fallbackArg_def recordSet_own_other)
  qed
  finally show ?case .
qed

lemma buildJobArgs_Some:
  "buildJobArgs realm (Some as) (Some jas) options =
     (case opt_external options of
        Some ext \<Rightarrow>
          (if length (snd (explicitArgs realm jas options as)) < length jas
           then foldl (fallbackArg realm ext (snd (explicitArgs realm jas options as)))
                  (fst (explicitArgs realm jas options as)) jas
           else fst (explicitArgs realm jas options as))
      | None \<Rightarrow> fst (explicitArgs realm jas options as))"
  by (simp add: buildJobArgs_def split: prod.splits option.splits)

lemma explicitArgs_dom:
  "dom (rec_own (fst (explicitArgs realm jas options as))) \<subseteq>
     set (snd (explicitArgs realm jas options as))"
  using foldl_resolveArg_dom [of emptyRecord "[]" realm jas options as]
  by (simp add: explicitArgs_def emptyRecord_def)

text \<open>
  C3, as the code has it: without a list of specs on the step, or without a list of
  parameters on the job, the result is empty. With both, with external arguments, and
  with fewer assignments made by the specs than the job has parameters (the test the code
  makes before the fallback), every parameter of the job that no spec assigned and that
  is not named \<open>__proto__\<close> is set to \<open>externalArgs[parameter]\<close>: its key is present
  in the result, with what that read gives (the own value, else the inherited one, else
  \<open>undefined\<close>). Without external arguments, a parameter that no spec assigned is
  absent from the result.
\<close>

theorem same_name_fallback:
  "buildJobArgs realm None jobArgs options = emptyRecord \<and>
   buildJobArgs realm args None options = emptyRecord \<and>
   (opt_external options = Some ext \<and>
    length (snd (explicitArgs realm jas options as)) < length jas \<and>
    p \<in> set jas \<and> p \<notin> set (snd (explicitArgs realm jas options as)) \<and> p \<noteq> ''__proto__'' \<longrightarrow>
      rec_own (buildJobArgs realm (Some as) (Some jas) options) p = Some (recordGet realm ext p)) \<and>
   (opt_external options = None \<and> p \<notin> set (snd (explicitArgs realm jas options as)) \<longrightarrow>
      rec_own (buildJobArgs realm (Some as) (Some jas) options) p = None)"
proof (intro conjI impI)
  show "buildJobArgs realm None jobArgs options = emptyRecord"
    by (simp add: buildJobArgs_def)
next
  show "buildJobArgs realm args None options = emptyRecord"
    by (simp add: buildJobArgs_def split: option.split)
next
  let ?asg = "snd (explicitArgs realm jas options as)"
  assume a: "opt_external options = Some ext \<and> length ?asg < length jas \<and>
    p \<in> set jas \<and> p \<notin> set ?asg \<and> p \<noteq> ''__proto__''"
  then have "p \<noteq> ''__proto__''" by simp
  from foldl_fallbackArg [OF this, of realm ext ?asg "fst (explicitArgs realm jas options as)" jas] a
  show "rec_own (buildJobArgs realm (Some as) (Some jas) options) p = Some (recordGet realm ext p)"
    by (simp add: buildJobArgs_Some)
next
  let ?asg = "snd (explicitArgs realm jas options as)"
  assume a: "opt_external options = None \<and> p \<notin> set ?asg"
  with explicitArgs_dom [of realm jas options as]
  have "rec_own (fst (explicitArgs realm jas options as)) p = None"
    by blast
  with a show "rec_own (buildJobArgs realm (Some as) (Some jas) options) p = None"
    by (simp add: buildJobArgs_Some)
qed

theorem same_name_fallback_witness:
  "rec_own (buildJobArgs exampleRealm (Some [Literal ''a'' (JNum 1)]) (Some [''a'', ''b''])
     \<lparr>opt_external = Some \<lparr>rec_own = [''b'' \<mapsto> JNum 7], rec_proto = None\<rparr>,
      opt_previous = JUndefined, opt_steps = [], opt_index = 0\<rparr>) ''b'' = Some (JNum 7) \<and>
   rec_own (buildJobArgs exampleRealm (Some [Literal ''a'' (JNum 1)]) (Some [''a'', ''b''])
     \<lparr>opt_external = None, opt_previous = JUndefined, opt_steps = [], opt_index = 0\<rparr>) ''b'' = None"
proof -
  let ?ext = "\<lparr>rec_own = [''b'' \<mapsto> JNum 7], rec_proto = None\<rparr>"
  let ?o = "\<lparr>opt_external = Some ?ext, opt_previous = JUndefined, opt_steps = [], opt_index = 0\<rparr>"
  let ?n = "\<lparr>opt_external = None, opt_previous = JUndefined, opt_steps = [], opt_index = 0\<rparr>"
  have h1: "opt_external ?o = Some ?ext \<and>
      length (snd (explicitArgs exampleRealm [''a'', ''b''] ?o [Literal ''a'' (JNum 1)])) <
        length [''a'', ''b''] \<and>
      ''b'' \<in> set [''a'', ''b''] \<and>
      ''b'' \<notin> set (snd (explicitArgs exampleRealm [''a'', ''b''] ?o [Literal ''a'' (JNum 1)])) \<and>
      ''b'' \<noteq> ''__proto__''"
    by (simp add: explicitArgs_def resolveArg.simps)
  have h2: "opt_external ?n = None \<and>
      ''b'' \<notin> set (snd (explicitArgs exampleRealm [''a'', ''b''] ?n [Literal ''a'' (JNum 1)]))"
    by (simp add: explicitArgs_def resolveArg.simps)
  have v: "recordGet exampleRealm ?ext ''b'' = JNum 7"
    by (simp add: recordGet_def)
  from same_name_fallback [of exampleRealm "Some [''a'']" ?o None ?ext "[''a'', ''b'']"
      "[Literal ''a'' (JNum 1)]" "''b''"] h1 v
  have "rec_own (buildJobArgs exampleRealm (Some [Literal ''a'' (JNum 1)]) (Some [''a'', ''b'']) ?o) ''b'' =
      Some (JNum 7)"
    by simp
  moreover
  from same_name_fallback [of exampleRealm "Some [''a'']" ?n None ?ext "[''a'', ''b'']"
      "[Literal ''a'' (JNum 1)]" "''b''"] h2
  have "rec_own (buildJobArgs exampleRealm (Some [Literal ''a'' (JNum 1)]) (Some [''a'', ''b'']) ?n) ''b'' =
      None"
    by simp
  ultimately show ?thesis by simp
qed

text \<open>
  Inputs on which C3 as worded fails, or on which the restrictions above are needed. A
  step without specs gets no fallback although \<open>externalArgs.b\<close> is 7. A parameter
  without a value in the external arguments is a key of the result (with value
  \<open>undefined\<close>), not absent. Two specs for \<open>a\<close> make two assignments, as many as the
  job has parameters, and \<open>b\<close> gets no fallback. For a parameter named \<open>__proto__\<close>
  the assignment sets the prototype of the result and creates no key.
\<close>

theorem same_name_fallback_counterexample:
  "recordGet exampleRealm \<lparr>rec_own = [''b'' \<mapsto> JNum 7], rec_proto = None\<rparr> ''b'' = JNum 7 \<and>
   rec_own (buildJobArgs exampleRealm None (Some [''b''])
     \<lparr>opt_external = Some \<lparr>rec_own = [''b'' \<mapsto> JNum 7], rec_proto = None\<rparr>,
      opt_previous = JUndefined, opt_steps = [], opt_index = 0\<rparr>) ''b'' = None \<and>
   ''b'' \<notin> set (snd (explicitArgs exampleRealm [''a'', ''b'']
     \<lparr>opt_external = Some emptyRecord, opt_previous = JUndefined, opt_steps = [], opt_index = 0\<rparr>
     [Literal ''a'' (JNum 1)])) \<and>
   recordGet exampleRealm emptyRecord ''b'' = JUndefined \<and>
   rec_own (buildJobArgs exampleRealm (Some [Literal ''a'' (JNum 1)]) (Some [''a'', ''b''])
     \<lparr>opt_external = Some emptyRecord, opt_previous = JUndefined, opt_steps = [],
      opt_index = 0\<rparr>) ''b'' = Some JUndefined \<and>
   ''b'' \<notin> set (snd (explicitArgs exampleRealm [''a'', ''b'']
     \<lparr>opt_external = Some \<lparr>rec_own = [''b'' \<mapsto> JNum 7], rec_proto = None\<rparr>,
      opt_previous = JUndefined, opt_steps = [], opt_index = 0\<rparr>
     [Literal ''a'' (JNum 1), Literal ''a'' (JNum 2)])) \<and>
   rec_own (buildJobArgs exampleRealm (Some [Literal ''a'' (JNum 1), Literal ''a'' (JNum 2)])
     (Some [''a'', ''b''])
     \<lparr>opt_external = Some \<lparr>rec_own = [''b'' \<mapsto> JNum 7], rec_proto = None\<rparr>,
      opt_previous = JUndefined, opt_steps = [], opt_index = 0\<rparr>) ''b'' = None \<and>
   recordGet exampleRealm emptyRecord ''__proto__'' = JBuiltin ''Object.prototype'' \<and>
   rec_own (buildJobArgs exampleRealm (Some []) (Some [''__proto__''])
     \<lparr>opt_external = Some emptyRecord, opt_previous = JUndefined, opt_steps = [],
      opt_index = 0\<rparr>) ''__proto__'' = None"
  by (simp add: args_defs example_defs)




end
